theory Spec2Isabelle
  imports Complex_Main "HOL-Library.Sublist"
begin

section \<open>Data model of the client (src/src/index.ts)\<close>

text \<open>
  One entry of the request queue: \<^verbatim>\<open>{ timestamp: number }\<close>. Timestamps are readings of
  \<^verbatim>\<open>Date.now()\<close>, whole milliseconds, modelled as integers.
\<close>

record RequestRecord =
  timestamp :: int

text \<open>The private fields of class \<^verbatim>\<open>EarthMC\<close>. \<^verbatim>\<open>BASE_URL\<close> is a read-only constant.\<close>

definition BASE_URL :: string where
  "BASE_URL = ''https://api.earthmc.net/v3''"

record EarthMC =
  serverStr :: string
  requestQueue :: "RequestRecord list"
  maxRequestsPerWindow :: int
  windowSize :: int

text \<open>
  The constructor's argument
  \<^verbatim>\<open>options?: { server?: string; maxRequestsPerWindow?: number; windowSize?: number }\<close>:
  every field may be absent, and so may the object.
\<close>

record Options =
  server :: "string option"
  opt_maxRequestsPerWindow :: "int option"
  opt_windowSize :: "int option"

definition MAX_SAFE_INTEGER :: int where
  "MAX_SAFE_INTEGER = 9007199254740991"

text \<open>\<^verbatim>\<open>options?.f ?? d\<close>: the field when the object and the field are present, else \<open>d\<close>.\<close>

definition nullish :: "Options option \<Rightarrow> (Options \<Rightarrow> 'a option) \<Rightarrow> 'a \<Rightarrow> 'a" where
  "nullish options f d = (case Option.bind options f of None \<Rightarrow> d | Some v \<Rightarrow> v)"

definition constructor :: "Options option \<Rightarrow> EarthMC" where
  "constructor options =
     \<lparr> serverStr = ''aurora'',
       requestQueue = [],
       maxRequestsPerWindow = nullish options opt_maxRequestsPerWindow MAX_SAFE_INTEGER,
       windowSize = nullish options opt_windowSize 300000 \<rparr>"

text \<open>
  A \<^verbatim>\<open>URL\<close> object: the address it was built from and its list of search parameters, which
  \<^verbatim>\<open>searchParams.append\<close> extends at the end (earlier entries of the same name stay).
\<close>

record URL =
  href :: string
  searchParams :: "(string \<times> string) list"

definition new_URL :: "string \<Rightarrow> URL" where
  "new_URL a = \<lparr> href = a, searchParams = [] \<rparr>"

definition searchParams_append :: "string \<Rightarrow> string \<Rightarrow> URL \<Rightarrow> URL" where
  "searchParams_append k v u = u\<lparr> searchParams := searchParams u @ [(k, v)] \<rparr>"

record Response =
  status :: int
  body :: string

text \<open>
  One call of \<^verbatim>\<open>fetch\<close>: the URL it is handed (the object whose \<^verbatim>\<open>toString\<close> is passed), the
  headers, and the clock reading at which the call is made.
\<close>

record Request =
  target :: URL
  headers :: "(string \<times> string) list"
  sent_at :: int

text \<open>
  Values that can be thrown: the \<^verbatim>\<open>TypeError\<close> of reading \<^verbatim>\<open>.timestamp\<close> of \<^verbatim>\<open>undefined\<close>,
  and whatever \<^verbatim>\<open>fetch\<close> rejects with.
\<close>

datatype error = TypeError | NetworkError string

section \<open>The host environment\<close>

text \<open>
  The part of the world the client talks to: the outcome of the \<open>n\<close>-th call of \<^verbatim>\<open>fetch\<close>
  (a response, or a rejection), the milliseconds that call takes, and the string that the
  \<open>n\<close>-th \<^verbatim>\<open>Math.random().toPrecision(2)\<close> yields.
\<close>

record Env =
  fetch :: "nat \<Rightarrow> Request \<Rightarrow> error + Response"
  latency :: "nat \<Rightarrow> nat"
  random_toPrecision2 :: "nat \<Rightarrow> string"

text \<open>
  The state threaded through the asynchronous methods: the client object, the reading of
  \<^verbatim>\<open>Date.now()\<close>, the delays handed to \<^verbatim>\<open>setTimeout\<close>, the requests handed to \<^verbatim>\<open>fetch\<close> and the
  lines written by \<^verbatim>\<open>console.log\<close>, each in order.
\<close>

record Sys =
  client :: EarthMC
  clock :: int
  timers :: "int list"
  fetchLog :: "Request list"
  console :: "string list"

text \<open>
  \<^verbatim>\<open>await new Promise((resolve) => setTimeout(resolve, d))\<close>: the delay asked for is recorded
  and the clock moves on by the delay the timer runs with. Node's timer takes a delay from 1 to
  \<open>2^31 - 1\<close> milliseconds as it is and replaces any other by 1.
\<close>

definition TIMEOUT_MAX :: int where
  "TIMEOUT_MAX = 2147483647"

definition timer_delay :: "int \<Rightarrow> int" where
  "timer_delay d = (if 1 \<le> d \<and> d \<le> TIMEOUT_MAX then d else 1)"

definition setTimeout_await :: "int \<Rightarrow> Sys \<Rightarrow> Sys" where
  "setTimeout_await d s = s\<lparr> timers := timers s @ [d], clock := clock s + timer_delay d \<rparr>"

section \<open>Number rendering\<close>

definition digit_char :: "nat \<Rightarrow> char" where
  "digit_char d = ''0123456789'' ! d"

fun digits :: "nat \<Rightarrow> string" where
  "digits n = (if n < 10 then [digit_char n] else digits (n div 10) @ [digit_char (n mod 10)])"

declare digits.simps [simp del]

text \<open>
  \<^verbatim>\<open>Number.prototype.toString\<close> on an integral value of magnitude below \<open>2^53\<close>: the decimal
  digits, with a leading minus sign. From \<open>2^53\<close> on JavaScript prints the shortest digits that
  identify the double, padded with zeros, and from \<open>10^21\<close> on it uses exponent notation; this
  rendering does not follow it there, and what is proved of a rendered number is proved for
  magnitudes below \<open>2^53\<close>: clock readings, and rounded arguments under that bound.
\<close>

definition Number_toString :: "int \<Rightarrow> string" where
  "Number_toString i = (if i < 0 then CHR ''-'' # digits (nat (- i)) else digits (nat i))"

text \<open>
  \<^verbatim>\<open>Math.round\<close> on a finite number: the integer closest to the argument, the one towards
  \<open>+\<infinity>\<close> on a tie. Every finite double is a rational number, and on those this is the exact
  result. \<open>NaN\<close> and the infinities, which \<^verbatim>\<open>Math.round\<close> returns as they are, are not values of
  the type.
\<close>

definition Math_round :: "rat \<Rightarrow> int" where
  "Math_round x = \<lfloor>x + 1 / 2\<rfloor>"

text \<open>\<^verbatim>\<open>Array.prototype.join\<close> on strings.\<close>

fun join :: "string \<Rightarrow> string list \<Rightarrow> string" where
  "join sep [] = []"
| "join sep [x] = x"
| "join sep (x # y # ys) = x @ sep @ join sep (y # ys)"

section \<open>The rate limiter\<close>

text \<open>Line 90: the filter that keeps the records still inside the window.\<close>

definition prune :: "int \<Rightarrow> int \<Rightarrow> RequestRecord list \<Rightarrow> RequestRecord list" where
  "prune w now q = filter (\<lambda>req. timestamp req + w > now) q"

text \<open>
  \<^verbatim>\<open>rateLimit\<close> (lines 86-102). Reading \<^verbatim>\<open>this.requestQueue[0].timestamp\<close> on an empty queue
  throws; the queue has been replaced by the filtered one by then.
\<close>

definition rateLimit :: "Sys \<Rightarrow> (error + unit) \<times> Sys" where
  "rateLimit s =
     (let now = clock s;
          c = client s;
          c1 = c\<lparr> requestQueue := prune (windowSize c) now (requestQueue c) \<rparr>;
          s1 = s\<lparr> client := c1 \<rparr>
      in if int (length (requestQueue c1)) \<ge> maxRequestsPerWindow c1 then
           (case requestQueue c1 of
              [] \<Rightarrow> (Inl TypeError, s1)
            | r # _ \<Rightarrow>
                (let timeToWait = timestamp r + windowSize c1 - now;
                     s2 = setTimeout_await timeToWait s1
                 in (Inr (),
                     s2\<lparr> client := (client s2)\<lparr> requestQueue :=
                            requestQueue (client s2) @ [\<lparr> timestamp = now \<rparr>] \<rparr> \<rparr>)))
         else (Inr (),
               s1\<lparr> client := c1\<lparr> requestQueue := requestQueue c1 @ [\<lparr> timestamp = now \<rparr>] \<rparr> \<rparr>))"

section \<open>The request executor\<close>

definition cache_token :: "int \<Rightarrow> string \<Rightarrow> string" where
  "cache_token now r = Number_toString now @ ''~'' @ r"

text \<open>
  \<^verbatim>\<open>get\<close> (lines 56-76). The URL object is mutated by \<^verbatim>\<open>append\<close> and the same object goes into
  the recursive call. A rejection of \<^verbatim>\<open>fetch\<close> or of the nested call is caught and rethrown as
  it is; a throw of \<^verbatim>\<open>rateLimit\<close> happens before the \<^verbatim>\<open>try\<close>.
\<close>

function get :: "Env \<Rightarrow> URL \<Rightarrow> int \<Rightarrow> Sys \<Rightarrow> (error + Response) \<times> Sys" where
  "get env url retryCount s =
     (case rateLimit s of
        (Inl e, s1) \<Rightarrow> (Inl e, s1)
      | (Inr _, s1) \<Rightarrow>
          (let n = length (fetchLog s1);
               url1 = searchParams_append ''no-cache-please''
                        (cache_token (clock s1) (random_toPrecision2 env n)) url;
               req = \<lparr> target = url1, headers = [(''X-Origin'', ''celerry'')], sent_at = clock s1 \<rparr>;
               s2 = s1\<lparr> fetchLog := fetchLog s1 @ [req], clock := clock s1 + int (latency env n) \<rparr>
           in case fetch env n req of
                Inl e \<Rightarrow> (Inl e, s2)
              | Inr response \<Rightarrow>
                  if status response = 504 \<and> retryCount > 0 then
                    get env url1 (retryCount - 1)
                      (s2\<lparr> console := console s2 @ [''Encountered 504 Gateway Timeout. Retrying...''] \<rparr>)
                  else (Inr response, s2)))"
  by pat_completeness auto
termination
  by (relation "measure (\<lambda>(env, url, retryCount, s). nat retryCount)") auto

declare get.simps [simp del]

section \<open>Endpoints\<close>

text \<open>
  \<^verbatim>\<open>discord\<close> and \<^verbatim>\<open>nearbyCoord\<close> up to the response they obtain; decoding its JSON body is the
  host's work. The URL object each builds before it calls \<^verbatim>\<open>get\<close> is a definition of its own.
\<close>

definition discord_url :: "EarthMC \<Rightarrow> string list \<Rightarrow> URL" where
  "discord_url c ids =
     searchParams_append ''query'' (join '','' ids)
       (new_URL (BASE_URL @ ''/'' @ serverStr c @ ''/discord''))"

definition discord :: "Env \<Rightarrow> string list \<Rightarrow> Sys \<Rightarrow> (error + Response) \<times> Sys" where
  "discord env ids s = get env (discord_url (client s) ids) 3 s"

definition nearbyCoord_url :: "EarthMC \<Rightarrow> rat \<times> rat \<Rightarrow> rat \<Rightarrow> URL" where
  "nearbyCoord_url c coords radius =
     searchParams_append ''radius'' (Number_toString (Math_round radius))
       (searchParams_append ''z'' (Number_toString (Math_round (snd coords)))
         (searchParams_append ''x'' (Number_toString (Math_round (fst coords)))
           (new_URL (BASE_URL @ ''/'' @ serverStr c @ ''/towns''))))"

definition nearbyCoord :: "Env \<Rightarrow> rat \<times> rat \<Rightarrow> rat \<Rightarrow> Sys \<Rightarrow> (error + Response) \<times> Sys" where
  "nearbyCoord env coords radius s = get env (nearbyCoord_url (client s) coords radius) 3 s"

section \<open>Scenarios and observations\<close>

text \<open>A client freshly constructed at clock reading \<open>t\<close>, with nothing logged yet.\<close>

definition session :: "Options option \<Rightarrow> int \<Rightarrow> Sys" where
  "session options t =
     \<lparr> client = constructor options, clock = t, timers = [], fetchLog = [], console = [] \<rparr>"

definition limited :: "int \<Rightarrow> int \<Rightarrow> Options" where
  "limited q w = \<lparr> server = None, opt_maxRequestsPerWindow = Some q, opt_windowSize = Some w \<rparr>"

definition nova :: Options where
  "nova = \<lparr> server = Some ''nova'', opt_maxRequestsPerWindow = None, opt_windowSize = None \<rparr>"

text \<open>
  A single caller running \<^verbatim>\<open>rateLimit\<close> again and again, each call starting \<open>g\<close> milliseconds
  after the previous one resolved. The result lists the clock reading at which each call
  resolved: the moment its request is let through.
\<close>

fun sequential_admits :: "nat list \<Rightarrow> Sys \<Rightarrow> int list \<times> Sys" where
  "sequential_admits [] s = ([], s)"
| "sequential_admits (g # gs) s =
     (case rateLimit (s\<lparr> clock := clock s + int g \<rparr>) of
        (Inl e, s1) \<Rightarrow> ([], s1)
      | (Inr _, s1) \<Rightarrow>
          (case sequential_admits gs s1 of (ts, s2) \<Rightarrow> (clock s1 # ts, s2)))"

text \<open>How many of the instants \<open>ts\<close> lie in the window of length \<open>w\<close> that ends at \<open>t\<close>.\<close>

definition admissions_in_window :: "int \<Rightarrow> int \<Rightarrow> int list \<Rightarrow> nat" where
  "admissions_in_window w t ts = length (filter (\<lambda>a. t - w < a \<and> a \<le> t) ts)"

text \<open>A client with quota 1 and window 1000 whose one record, made at 0, is seen at 1.\<close>

definition at_quota :: Sys where
  "at_quota =
     \<lparr> client = \<lparr> serverStr = ''aurora'', requestQueue = [\<lparr> timestamp = 0 \<rparr>],
                  maxRequestsPerWindow = 1, windowSize = 1000 \<rparr>,
       clock = 1, timers = [], fetchLog = [], console = [] \<rparr>"

text \<open>The requests that one call of \<^verbatim>\<open>get\<close> hands to \<^verbatim>\<open>fetch\<close>, and what came back for each.\<close>

definition requests_made :: "Env \<Rightarrow> URL \<Rightarrow> int \<Rightarrow> Sys \<Rightarrow> Request list" where
  "requests_made env url r s = drop (length (fetchLog s)) (fetchLog (snd (get env url r s)))"

definition attempt_outcome :: "Env \<Rightarrow> URL \<Rightarrow> int \<Rightarrow> Sys \<Rightarrow> nat \<Rightarrow> error + Response" where
  "attempt_outcome env url r s i =
     fetch env (length (fetchLog s) + i) (requests_made env url r s ! i)"

definition is504 :: "error + Response \<Rightarrow> bool" where
  "is504 x = (case x of Inl _ \<Rightarrow> False | Inr response \<Rightarrow> status response = 504)"

text \<open>The parameter appended last to a request's URL, and all the cache-busting values of a URL.\<close>

definition generated_value :: "Request \<Rightarrow> string" where
  "generated_value req = snd (last (searchParams (target req)))"

definition nocache_values :: "URL \<Rightarrow> string list" where
  "nocache_values u = map snd (filter (\<lambda>p. fst p = ''no-cache-please'') (searchParams u))"

text \<open>
  The shape of the requests of one call: each URL is the previous one with one more
  cache-busting parameter, made of the clock reading at the call and the next random string.
\<close>

fun retry_chain :: "Env \<Rightarrow> nat \<Rightarrow> URL \<Rightarrow> Request list \<Rightarrow> bool" where
  "retry_chain env n u [] = True"
| "retry_chain env n u (q # qs) =
     (target q = searchParams_append ''no-cache-please''
                   (cache_token (sent_at q) (random_toPrecision2 env n)) u
      \<and> headers q = [(''X-Origin'', ''celerry'')]
      \<and> retry_chain env (Suc n) (target q) qs)"

text \<open>The pieces of one round of \<^verbatim>\<open>get\<close> after the rate limiter let it through in state \<open>s1\<close>.\<close>

definition attempt_request :: "Env \<Rightarrow> URL \<Rightarrow> Sys \<Rightarrow> Request" where
  "attempt_request env url s1 =
     \<lparr> target = searchParams_append ''no-cache-please''
                  (cache_token (clock s1) (random_toPrecision2 env (length (fetchLog s1)))) url,
       headers = [(''X-Origin'', ''celerry'')], sent_at = clock s1 \<rparr>"

definition attempt_state :: "Env \<Rightarrow> URL \<Rightarrow> Sys \<Rightarrow> Sys" where
  "attempt_state env url s1 =
     s1\<lparr> fetchLog := fetchLog s1 @ [attempt_request env url s1],
         clock := clock s1 + int (latency env (length (fetchLog s1))) \<rparr>"

definition retry_state :: "Env \<Rightarrow> URL \<Rightarrow> Sys \<Rightarrow> Sys" where
  "retry_state env url s1 =
     (attempt_state env url s1)\<lparr> console := console (attempt_state env url s1)
        @ [''Encountered 504 Gateway Timeout. Retrying...''] \<rparr>"

text \<open>
  A host whose \<open>n\<close>-th \<^verbatim>\<open>fetch\<close> ends as the \<open>n\<close>-th entry of a script says (and with status 200
  once the script is used up), each taking \<open>ms\<close> milliseconds, and whose random string is
  always \<open>0.50\<close>.
\<close>

definition scripted :: "(error + Response) list \<Rightarrow> nat \<Rightarrow> Env" where
  "scripted outs ms =
     \<lparr> fetch = (\<lambda>n req. if n < length outs then outs ! n else Inr \<lparr> status = 200, body = [] \<rparr>),
       latency = (\<lambda>n. ms),
       random_toPrecision2 = (\<lambda>n. ''0.50'') \<rparr>"

definition answer :: "int \<Rightarrow> error + Response" where
  "answer code = Inr \<lparr> status = code, body = [] \<rparr>"

text \<open>The outcomes of the attempts one call of \<^verbatim>\<open>get\<close> made, in order.\<close>

definition outcomes :: "Env \<Rightarrow> URL \<Rightarrow> int \<Rightarrow> Sys \<Rightarrow> (error + Response) list" where
  "outcomes env url r s =
     map (attempt_outcome env url r s) [0..<length (requests_made env url r s)]"

text \<open>A URL as the endpoints build it, and the requests one call of \<^verbatim>\<open>nearbyCoord\<close> makes.\<close>

definition towns_url :: URL where
  "towns_url = new_URL (BASE_URL @ ''/aurora/towns'')"

definition nearbyCoord_requests :: "Env \<Rightarrow> rat \<times> rat \<Rightarrow> rat \<Rightarrow> Sys \<Rightarrow> Request list" where
  "nearbyCoord_requests env coords radius s =
     drop (length (fetchLog s)) (fetchLog (snd (nearbyCoord env coords radius s)))"

section \<open>Facts about the rate limiter\<close>

lemma rateLimit_under:
  assumes "int (length (prune (windowSize (client s)) (clock s) (requestQueue (client s))))
             < maxRequestsPerWindow (client s)"
  shows "rateLimit s =
     (Inr (), s\<lparr> client := (client s)\<lparr> requestQueue :=
                  prune (windowSize (client s)) (clock s) (requestQueue (client s))
                    @ [\<lparr> timestamp = clock s \<rparr>] \<rparr> \<rparr>)"
  using assms by (simp add: rateLimit_def Let_def)

lemma rateLimit_over:
  assumes "maxRequestsPerWindow (client s)
             \<le> int (length (prune (windowSize (client s)) (clock s) (requestQueue (client s))))"
    and "prune (windowSize (client s)) (clock s) (requestQueue (client s)) = r # rs"
  shows "rateLimit s =
     (Inr (), s\<lparr> client := (client s)\<lparr> requestQueue := (r # rs) @ [\<lparr> timestamp = clock s \<rparr>] \<rparr>,
                timers := timers s @ [timestamp r + windowSize (client s) - clock s],
                clock := clock s + timer_delay (timestamp r + windowSize (client s) - clock s) \<rparr>)"
  using assms by (simp add: rateLimit_def Let_def setTimeout_await_def)

lemma rateLimit_empty:
  assumes "maxRequestsPerWindow (client s)
             \<le> int (length (prune (windowSize (client s)) (clock s) (requestQueue (client s))))"
    and "prune (windowSize (client s)) (clock s) (requestQueue (client s)) = []"
  shows "rateLimit s = (Inl TypeError, s\<lparr> client := (client s)\<lparr> requestQueue := [] \<rparr> \<rparr>)"
  using assms by (simp add: rateLimit_def Let_def)

lemma prune_head_in_window:
  assumes "prune w now q = r # rs"
  shows "0 < timestamp r + w - now"
proof -
  have "r \<in> set (prune w now q)" using assms by simp
  then show ?thesis by (simp add: prune_def)
qed

text \<open>
  Whatever the state, \<^verbatim>\<open>rateLimit\<close> either throws, which takes a quota that is not positive,
  or lets the caller through; it never touches the log of requests or the quota.
\<close>

lemma rateLimit_cases:
  obtains (throws) s1 where "rateLimit s = (Inl TypeError, s1)"
      "maxRequestsPerWindow (client s) \<le> 0" "fetchLog s1 = fetchLog s"
  | (admits) s1 where "rateLimit s = (Inr (), s1)" "fetchLog s1 = fetchLog s"
      "maxRequestsPerWindow (client s1) = maxRequestsPerWindow (client s)"
proof (cases "int (length (prune (windowSize (client s)) (clock s) (requestQueue (client s))))
                < maxRequestsPerWindow (client s)")
  case True
  then show ?thesis
    by (intro admits [of "snd (rateLimit s)"]) (simp_all add: rateLimit_def Let_def)
next
  case False
  show ?thesis
  proof (cases "prune (windowSize (client s)) (clock s) (requestQueue (client s))")
    case Nil
    with False show ?thesis
      by (intro throws [of "snd (rateLimit s)"]) (simp_all add: rateLimit_def Let_def)
  next
    case (Cons a list)
    with False show ?thesis
      by (intro admits [of "snd (rateLimit s)"])
        (simp_all add: rateLimit_def Let_def setTimeout_await_def)
  qed
qed

section \<open>Claims about the rate limiter\<close>

text \<open>
  Claim C1 says that under sequential use no window of length \<open>W\<close> ever holds more than \<open>Q\<close>
  admissions. The code does not keep that: with quota 1 and window 1000, a first call at 0, a
  second one millisecond later and a third one millisecond after the second resolved are let
  through at 0, 1000 and 1001, so the window that ends at 1001 holds two admissions. The
  second call waits until 1000 but leaves the record 1, the time it was called, which has
  left the window when the third call prunes at 1001.
\<close>

theorem sequential_admits_exceed_quota:
  "fst (sequential_admits [0, 1, 1] (session (Some (limited 1 1000)) 0)) = [0, 1000, 1001]
   \<and> admissions_in_window 1000 1001
        (fst (sequential_admits [0, 1, 1] (session (Some (limited 1 1000)) 0))) = 2
   \<and> maxRequestsPerWindow (client (session (Some (limited 1 1000)) 0)) = 1"
  by (simp add: session_def limited_def constructor_def nullish_def rateLimit_def prune_def
        setTimeout_await_def timer_delay_def TIMEOUT_MAX_def Let_def admissions_in_window_def)

text \<open>
  Claim C2 says that a call made at quota suspends for \<open>t0 + W - now\<close> and then records the
  time after the wait. At quota 1, window 1000, oldest record 0 and clock 1 the call does
  suspend for 999, until 1000, but the record it appends carries 1, the reading taken before
  the wait.
\<close>

theorem admit_records_time_before_wait:
  "rateLimit at_quota =
     (Inr (), at_quota\<lparr> client := (client at_quota)\<lparr> requestQueue :=
                           [\<lparr> timestamp = 0 \<rparr>, \<lparr> timestamp = 1 \<rparr>] \<rparr>,
                        timers := [999], clock := 1000 \<rparr>)"
  by (simp add: at_quota_def rateLimit_def prune_def setTimeout_await_def timer_delay_def
        TIMEOUT_MAX_def Let_def)

text \<open>
  Claim C4: pruning keeps exactly the records with \<open>timestamp + windowSize > now\<close>, that is, it
  removes exactly those with \<open>timestamp + windowSize \<le> now\<close>, in place and in order; the queue
  that \<^verbatim>\<open>rateLimit\<close> leaves is the kept records (plus the new one when the call is let
  through), and the call goes through without suspension exactly when the number of kept
  records is below the quota, whatever the length of the queue before.
\<close>

theorem prune_removes_exactly_expired:
  "prune w now q = filter (\<lambda>r. \<not> timestamp r + w \<le> now) q
   \<and> (\<exists>res s'. rateLimit s = (res, s')
        \<and> requestQueue (client s') =
            filter (\<lambda>r. \<not> timestamp r + windowSize (client s) \<le> clock s) (requestQueue (client s))
              @ (case res of Inl _ \<Rightarrow> [] | Inr _ \<Rightarrow> [\<lparr> timestamp = clock s \<rparr>])
        \<and> ((res = Inr () \<and> timers s' = timers s) =
             (int (length (filter (\<lambda>r. \<not> timestamp r + windowSize (client s) \<le> clock s)
                             (requestQueue (client s))))
                < maxRequestsPerWindow (client s))))"
proof -
  have p: "prune w now q = filter (\<lambda>r. \<not> timestamp r + w \<le> now) q" for w now q
    by (simp add: prune_def not_le)
  let ?k = "prune (windowSize (client s)) (clock s) (requestQueue (client s))"
  consider (under) "int (length ?k) < maxRequestsPerWindow (client s)"
    | (empty) "maxRequestsPerWindow (client s) \<le> int (length ?k)" "?k = []"
    | (over) r rs where "maxRequestsPerWindow (client s) \<le> int (length ?k)" "?k = r # rs"
    by (cases ?k; cases "int (length ?k) < maxRequestsPerWindow (client s)")
      (simp_all add: not_less)
  then have "\<exists>res s'. rateLimit s = (res, s')
        \<and> requestQueue (client s') =
            ?k @ (case res of Inl _ \<Rightarrow> [] | Inr _ \<Rightarrow> [\<lparr> timestamp = clock s \<rparr>])
        \<and> ((res = Inr () \<and> timers s' = timers s)
             = (int (length ?k) < maxRequestsPerWindow (client s)))"
  proof cases
    case under
    then show ?thesis by (simp add: rateLimit_under)
  next
    case empty
    then show ?thesis by (simp add: rateLimit_empty)
  next
    case over
    then show ?thesis by (simp add: rateLimit_over)
  qed
  then show ?thesis by (simp add: p)
qed

text \<open>
  Claim C7: when the quota is at least 1 and the pruned queue has reached it, the pruned queue
  has a first record, the delay computed from it is strictly positive, and that delay is the
  one handed to \<^verbatim>\<open>setTimeout\<close>; the call does not throw.
\<close>

theorem over_quota_wait_positive:
  assumes "1 \<le> maxRequestsPerWindow (client s)"
    and "maxRequestsPerWindow (client s)
           \<le> int (length (prune (windowSize (client s)) (clock s) (requestQueue (client s))))"
  shows "\<exists>r rs s'. prune (windowSize (client s)) (clock s) (requestQueue (client s)) = r # rs
           \<and> 0 < timestamp r + windowSize (client s) - clock s
           \<and> rateLimit s = (Inr (), s')
           \<and> timers s' = timers s @ [timestamp r + windowSize (client s) - clock s]"
proof -
  let ?k = "prune (windowSize (client s)) (clock s) (requestQueue (client s))"
  from assms have "?k \<noteq> []" by auto
  then obtain r rs where k: "?k = r # rs" by (cases ?k) auto
  have "0 < timestamp r + windowSize (client s) - clock s"
    using k by (rule prune_head_in_window)
  moreover have "timers (snd (rateLimit s)) = timers s @ [timestamp r + windowSize (client s) - clock s]"
    "fst (rateLimit s) = Inr ()"
    using rateLimit_over [OF assms(2) k] by simp_all
  ultimately show ?thesis using k by (metis prod.collapse)
qed

theorem over_quota_wait_positive_witness:
  "1 \<le> maxRequestsPerWindow (client at_quota)
   \<and> maxRequestsPerWindow (client at_quota)
        \<le> int (length (prune (windowSize (client at_quota)) (clock at_quota)
                          (requestQueue (client at_quota))))
   \<and> (\<exists>r rs s'. prune (windowSize (client at_quota)) (clock at_quota)
                    (requestQueue (client at_quota)) = r # rs
           \<and> 0 < timestamp r + windowSize (client at_quota) - clock at_quota
           \<and> rateLimit at_quota = (Inr (), s')
           \<and> timers s' = timers at_quota
                @ [timestamp r + windowSize (client at_quota) - clock at_quota])"
proof -
  have a: "1 \<le> maxRequestsPerWindow (client at_quota)"
    by (simp add: at_quota_def)
  have b: "maxRequestsPerWindow (client at_quota)
             \<le> int (length (prune (windowSize (client at_quota)) (clock at_quota)
                               (requestQueue (client at_quota))))"
    by (simp add: at_quota_def prune_def)
  show ?thesis using a b over_quota_wait_positive [OF a b] by blast
qed

section \<open>Facts about number rendering and rounding\<close>

lemma digit_char_code: "d < 10 \<Longrightarrow> of_char (digit_char d) = (48 + d :: nat)"
proof -
  assume "d < 10"
  then have "d \<in> {0,1,2,3,4,5,6,7,8,9}" by auto
  then show ?thesis by (auto simp: digit_char_def)
qed

lemma digit_char_inj: "d < 10 \<Longrightarrow> e < 10 \<Longrightarrow> digit_char d = digit_char e \<Longrightarrow> d = e"
  by (metis digit_char_code add_left_cancel)

lemma digit_char_not_sep: "d < 10 \<Longrightarrow> digit_char d \<noteq> CHR ''~'' \<and> digit_char d \<noteq> CHR ''-''"
proof -
  assume "d < 10"
  then have "d \<in> {0,1,2,3,4,5,6,7,8,9}" by auto
  then show ?thesis by (auto simp: digit_char_def)
qed

lemma digits_chars: "c \<in> set (digits n) \<Longrightarrow> c \<noteq> CHR ''~'' \<and> c \<noteq> CHR ''-''"
proof (induction n rule: digits.induct)
  case (1 n)
  show ?case
  proof (cases "n < 10")
    case True
    with "1.prems" show ?thesis by (simp add: digits.simps [of n] digit_char_not_sep)
  next
    case False
    with "1.prems" have "c \<in> set (digits (n div 10)) \<or> c = digit_char (n mod 10)"
      by (auto simp: digits.simps [of n])
    then show ?thesis using "1.IH" False digit_char_not_sep [of "n mod 10"] by auto
  qed
qed

lemma digits_not_Nil: "digits n \<noteq> []"
  by (simp add: digits.simps [of n])

lemma digits_inj: "digits n = digits m \<Longrightarrow> n = m"
proof (induction n arbitrary: m rule: digits.induct)
  case (1 n)
  show ?case
  proof (cases "n < 10")
    case n: True
    show ?thesis
    proof (cases "m < 10")
      case True
      with n "1.prems" show ?thesis
        by (simp add: digits.simps [of n] digits.simps [of m] digit_char_inj)
    next
      case False
      with n "1.prems" digits_not_Nil [of "m div 10"] show ?thesis
        by (simp add: digits.simps [of n] digits.simps [of m])
    qed
  next
    case n: False
    show ?thesis
    proof (cases "m < 10")
      case True
      with n "1.prems" digits_not_Nil [of "n div 10"] show ?thesis
        by (simp add: digits.simps [of n] digits.simps [of m])
    next
      case False
      with n "1.prems" have e: "digits (n div 10) = digits (m div 10)"
        "digit_char (n mod 10) = digit_char (m mod 10)"
        by (simp_all add: digits.simps [of n] digits.simps [of m])
      from "1.IH" [OF n e(1)] have "n div 10 = m div 10" .
      moreover from e(2) have "n mod 10 = m mod 10" by (simp add: digit_char_inj)
      ultimately show ?thesis by (metis div_mult_mod_eq)
    qed
  qed
qed

lemma Number_toString_chars: "CHR ''~'' \<notin> set (Number_toString i)"
  using digits_chars by (auto simp: Number_toString_def)

lemma Number_toString_inj: "Number_toString i = Number_toString j \<Longrightarrow> i = j"
proof -
  assume a: "Number_toString i = Number_toString j"
  have neg: "CHR ''-'' # digits a \<noteq> digits b" for a b
  proof
    assume "CHR ''-'' # digits a = digits b"
    then have "CHR ''-'' \<in> set (digits b)" by (metis list.set_intros(1))
    then show False using digits_chars by blast
  qed
  show ?thesis
  proof (cases "i < 0"; cases "j < 0")
    assume "i < 0" "j < 0"
    with a have "nat (- i) = nat (- j)" by (simp add: Number_toString_def digits_inj)
    with \<open>i < 0\<close> \<open>j < 0\<close> show ?thesis by simp
  next
    assume "i < 0" "\<not> j < 0"
    with a neg show ?thesis by (simp add: Number_toString_def)
  next
    assume "\<not> i < 0" "j < 0"
    with a neg [of "nat (- j)" "nat i"] show ?thesis by (simp add: Number_toString_def)
  next
    assume "\<not> i < 0" "\<not> j < 0"
    with a have "nat i = nat j" by (simp add: Number_toString_def digits_inj)
    with \<open>\<not> i < 0\<close> \<open>\<not> j < 0\<close> show ?thesis by simp
  qed
qed

lemma split_at_sep:
  assumes "c \<notin> set xs" "c \<notin> set xs'" "xs @ c # ys = xs' @ c # ys'"
  shows "xs = xs' \<and> ys = ys'"
  using assms
proof (induction xs arbitrary: xs')
  case Nil
  then show ?case by (cases xs') auto
next
  case (Cons a xs)
  then show ?case by (cases xs') auto
qed

lemma cache_token_eq: "(cache_token t r = cache_token t' r') = (t = t' \<and> r = r')"
proof
  assume "cache_token t r = cache_token t' r'"
  then have "Number_toString t @ CHR ''~'' # r = Number_toString t' @ CHR ''~'' # r'"
    by (simp add: cache_token_def)
  from split_at_sep [OF Number_toString_chars Number_toString_chars this]
  show "t = t' \<and> r = r'" by (simp add: Number_toString_inj)
qed simp

lemma Math_round_iff: "(Math_round v = k) = (of_int k - 1 / 2 \<le> v \<and> v < of_int k + 1 / 2)"
  unfolding Math_round_def floor_eq_iff by auto

lemma Math_round_nearest: "\<bar>of_int (Math_round v) - v\<bar> \<le> \<bar>of_int k - v\<bar>"
proof -
  define m where "m = Math_round v"
  have m: "of_int m - 1 / 2 \<le> v" "v < of_int m + 1 / 2"
    using Math_round_iff [of v m] by (simp_all add: m_def)
  consider "k = m" | "k \<le> m - 1" | "m + 1 \<le> k" by linarith
  then have "\<bar>of_int m - v\<bar> \<le> \<bar>of_int k - v\<bar>"
  proof cases
    case 1
    then show ?thesis by simp
  next
    case 2
    then have "(of_int k :: rat) \<le> of_int m - 1" by (metis of_int_le_iff of_int_diff of_int_1)
    with m show ?thesis by linarith
  next
    case 3
    then have "(of_int m :: rat) + 1 \<le> of_int k" by (metis of_int_le_iff of_int_add of_int_1)
    with m show ?thesis by linarith
  qed
  then show ?thesis by (simp add: m_def)
qed

section \<open>Facts about the request executor\<close>

lemma get_throw:
  assumes "rateLimit s = (Inl e, s1)"
  shows "get env url r s = (Inl e, s1)"
  using assms by (subst get.simps) simp

lemma get_step:
  assumes "rateLimit s = (Inr (), s1)"
  shows "get env url r s =
     (case fetch env (length (fetchLog s1)) (attempt_request env url s1) of
        Inl e \<Rightarrow> (Inl e, attempt_state env url s1)
      | Inr response \<Rightarrow>
          if status response = 504 \<and> r > 0 then
            get env (target (attempt_request env url s1)) (r - 1) (retry_state env url s1)
          else (Inr response, attempt_state env url s1))"
  using assms
  by (subst get.simps)
    (simp add: Let_def attempt_request_def attempt_state_def retry_state_def split: sum.splits)

text \<open>
  One round of \<^verbatim>\<open>get\<close>: the limiter throws; or one request goes out and the call ends with its
  outcome; or one request goes out, comes back as a 504 with retries left, and \<^verbatim>\<open>get\<close> runs
  again on the extended URL.
\<close>

lemma get_round:
  obtains (throws) s1 where "get env url r s = (Inl TypeError, s1)" "fetchLog s1 = fetchLog s"
      "maxRequestsPerWindow (client s) \<le> 0"
  | (ends) q s2 where "get env url r s = (fetch env (length (fetchLog s)) q, s2)"
      "fetchLog s2 = fetchLog s @ [q]" "is504 (fetch env (length (fetchLog s)) q) \<longrightarrow> r \<le> 0"
      "retry_chain env (length (fetchLog s)) url [q]"
  | (retries) q s3 where "get env url r s = get env (target q) (r - 1) s3"
      "fetchLog s3 = fetchLog s @ [q]" "is504 (fetch env (length (fetchLog s)) q)" "0 < r"
      "retry_chain env (length (fetchLog s)) url [q]"
      "maxRequestsPerWindow (client s3) = maxRequestsPerWindow (client s)"
proof (cases s rule: rateLimit_cases)
  case (throws s1)
  then show ?thesis by (intro that(1) [of s1]) (simp_all add: get_throw)
next
  case (admits s1)
  define q where "q = attempt_request env url s1"
  note step = get_step [OF admits(1), of env url r, folded q_def]
  have n: "length (fetchLog s1) = length (fetchLog s)" by (simp add: admits)
  have chain: "retry_chain env (length (fetchLog s)) url [q]"
    by (simp add: q_def attempt_request_def admits)
  show ?thesis
  proof (cases "is504 (fetch env (length (fetchLog s)) q) \<and> 0 < r")
    case True
    then have "get env url r s = get env (target q) (r - 1) (retry_state env url s1)"
      by (auto simp: step n is504_def split: sum.splits)
    moreover have "fetchLog (retry_state env url s1) = fetchLog s @ [q]"
      "maxRequestsPerWindow (client (retry_state env url s1)) = maxRequestsPerWindow (client s)"
      by (simp_all add: retry_state_def attempt_state_def q_def admits)
    ultimately show ?thesis using True chain
      by (intro that(3) [of q "retry_state env url s1"]) simp_all
  next
    case False
    then have "get env url r s = (fetch env (length (fetchLog s)) q, attempt_state env url s1)"
      by (auto simp: step n is504_def split: sum.splits)
    moreover have "fetchLog (attempt_state env url s1) = fetchLog s @ [q]"
      by (simp add: attempt_state_def q_def admits)
    ultimately show ?thesis using False chain
      by (intro that(2) [of q "attempt_state env url s1"]) auto
  qed
qed

lemma get_chain:
  "\<exists>qs. fetchLog (snd (get env url r s)) = fetchLog s @ qs
        \<and> retry_chain env (length (fetchLog s)) url qs"
proof (induction "nat r" arbitrary: r url s rule: less_induct)
  case less
  show ?case
  proof (cases env url r s rule: get_round)
    case (throws s1)
    then have "fetchLog (snd (get env url r s)) = fetchLog s @ []"
      "retry_chain env (length (fetchLog s)) url []" by simp_all
    then show ?thesis by blast
  next
    case (ends q s2)
    then have "fetchLog (snd (get env url r s)) = fetchLog s @ [q]"
      "retry_chain env (length (fetchLog s)) url [q]" by simp_all
    then show ?thesis by blast
  next
    case (retries q s3)
    then have "nat (r - 1) < nat r" by simp
    from less [OF this, of "target q" s3] obtain qs where
      "fetchLog (snd (get env (target q) (r - 1) s3)) = fetchLog s3 @ qs"
      "retry_chain env (length (fetchLog s3)) (target q) qs" by blast
    with retries have "fetchLog (snd (get env url r s)) = fetchLog s @ (q # qs)"
      "retry_chain env (length (fetchLog s)) url (q # qs)" by simp_all
    then show ?thesis by blast
  qed
qed

text \<open>An attempt that does not come back as a 504 is the last one, and its outcome is the result.\<close>

lemma get_final:
  "\<exists>qs. fetchLog (snd (get env url r s)) = fetchLog s @ qs
     \<and> (\<forall>i. i < length qs \<and> \<not> is504 (fetch env (length (fetchLog s) + i) (qs ! i))
            \<longrightarrow> Suc i = length qs
              \<and> fst (get env url r s) = fetch env (length (fetchLog s) + i) (qs ! i))"
proof (induction "nat r" arbitrary: r url s rule: less_induct)
  case less
  show ?case
  proof (cases env url r s rule: get_round)
    case (throws s1)
    then have "fetchLog (snd (get env url r s)) = fetchLog s @ []"
      "\<forall>i. i < length ([] :: Request list)
             \<and> \<not> is504 (fetch env (length (fetchLog s) + i) ([] ! i))
            \<longrightarrow> Suc i = length ([] :: Request list)
              \<and> fst (get env url r s) = fetch env (length (fetchLog s) + i) ([] ! i)"
      by simp_all
    then show ?thesis by blast
  next
    case (ends q s2)
    then have "fetchLog (snd (get env url r s)) = fetchLog s @ [q]"
      "\<forall>i. i < length [q] \<and> \<not> is504 (fetch env (length (fetchLog s) + i) ([q] ! i))
            \<longrightarrow> Suc i = length [q]
              \<and> fst (get env url r s) = fetch env (length (fetchLog s) + i) ([q] ! i)"
      by simp_all
    then show ?thesis by blast
  next
    case (retries q s3)
    then have "nat (r - 1) < nat r" by simp
    from less [OF this, of "target q" s3] obtain qs where
      qs: "fetchLog (snd (get env (target q) (r - 1) s3)) = fetchLog s3 @ qs"
      "\<forall>i. i < length qs \<and> \<not> is504 (fetch env (length (fetchLog s3) + i) (qs ! i))
            \<longrightarrow> Suc i = length qs
              \<and> fst (get env (target q) (r - 1) s3) = fetch env (length (fetchLog s3) + i) (qs ! i)"
      by blast
    have "\<forall>i. i < length (q # qs) \<and> \<not> is504 (fetch env (length (fetchLog s) + i) ((q # qs) ! i))
            \<longrightarrow> Suc i = length (q # qs)
              \<and> fst (get env url r s) = fetch env (length (fetchLog s) + i) ((q # qs) ! i)"
    proof (intro allI impI)
      fix i
      assume a: "i < length (q # qs) \<and> \<not> is504 (fetch env (length (fetchLog s) + i) ((q # qs) ! i))"
      show "Suc i = length (q # qs)
              \<and> fst (get env url r s) = fetch env (length (fetchLog s) + i) ((q # qs) ! i)"
      proof (cases i)
        case 0
        with a retries(3) show ?thesis by simp
      next
        case (Suc j)
        with a have "j < length qs \<and> \<not> is504 (fetch env (length (fetchLog s3) + j) (qs ! j))"
          by (simp add: retries(2))
        with qs(2) have "Suc j = length qs"
          "fst (get env (target q) (r - 1) s3) = fetch env (length (fetchLog s3) + j) (qs ! j)"
          by blast+
        moreover have "(q # qs) ! i = qs ! j" "length (fetchLog s3) + j = length (fetchLog s) + i"
          by (simp_all add: Suc retries(2))
        ultimately show ?thesis using retries(1) Suc by simp
      qed
    qed
    moreover have "fetchLog (snd (get env url r s)) = fetchLog s @ (q # qs)"
      using qs(1) retries by simp
    ultimately show ?thesis by blast
  qed
qed

text \<open>
  With a quota of at least 1 the limiter never throws: at least one request goes out, the
  result is the outcome of the last one, and a 504 as result means the budget is used up.
\<close>

lemma get_trace:
  assumes "1 \<le> maxRequestsPerWindow (client s)"
  shows "\<exists>qs. qs \<noteq> [] \<and> fetchLog (snd (get env url r s)) = fetchLog s @ qs
     \<and> fst (get env url r s) = fetch env (length (fetchLog s) + (length qs - 1)) (last qs)
     \<and> length qs \<le> nat r + 1
     \<and> (is504 (fst (get env url r s)) \<longrightarrow> length qs = nat r + 1)"
  using assms
proof (induction "nat r" arbitrary: r url s rule: less_induct)
  case less
  show ?case
  proof (cases env url r s rule: get_round)
    case (throws s1)
    with less.prems show ?thesis by simp
  next
    case (ends q s2)
    then have "[q] \<noteq> []" "fetchLog (snd (get env url r s)) = fetchLog s @ [q]"
     "fst (get env url r s) = fetch env (length (fetchLog s) + (length [q] - 1)) (last [q])"
     "length [q] \<le> nat r + 1"
     "is504 (fst (get env url r s)) \<longrightarrow> length [q] = nat r + 1"
      by simp_all
    then show ?thesis by blast
  next
    case (retries q s3)
    then have lt: "nat (r - 1) < nat r" and r: "nat r = Suc (nat (r - 1))" by simp_all
    have "1 \<le> maxRequestsPerWindow (client s3)" using less.prems retries by simp
    from less.hyps [OF lt this, of "target q"] obtain qs where
      qs: "qs \<noteq> []" "fetchLog (snd (get env (target q) (r - 1) s3)) = fetchLog s3 @ qs"
        "fst (get env (target q) (r - 1) s3) = fetch env (length (fetchLog s3) + (length qs - 1)) (last qs)"
        "length qs \<le> nat (r - 1) + 1"
        "is504 (fst (get env (target q) (r - 1) s3)) \<longrightarrow> length qs = nat (r - 1) + 1"
      by blast
    have idx: "length (fetchLog s3) + (length qs - 1) = length (fetchLog s) + (length (q # qs) - 1)"
      using qs(1) by (cases qs) (simp_all add: retries(2))
    have g: "get env url r s = get env (target q) (r - 1) s3" by (rule retries(1))
    have "fetchLog (snd (get env url r s)) = fetchLog s @ (q # qs)"
      by (simp add: g qs(2) retries(2))
    moreover have "fst (get env url r s)
        = fetch env (length (fetchLog s) + (length (q # qs) - 1)) (last (q # qs))"
      unfolding g qs(3) idx using qs(1) by simp
    moreover have "length (q # qs) \<le> nat r + 1"
      unfolding r using qs(4) by simp
    moreover have "is504 (fst (get env url r s)) \<longrightarrow> length (q # qs) = nat r + 1"
      unfolding g r using qs(5) by simp
    ultimately show ?thesis by blast
  qed
qed

lemma requests_made_eq:
  assumes "fetchLog (snd (get env url r s)) = fetchLog s @ qs"
  shows "requests_made env url r s = qs"
  by (simp add: requests_made_def assms)

lemma retry_chain_nth:
  assumes "retry_chain env n u qs" "i < length qs"
  shows "searchParams (target (qs ! i))
           = searchParams u @ map (\<lambda>q. (''no-cache-please'', generated_value q)) (take (Suc i) qs)
         \<and> generated_value (qs ! i) = cache_token (sent_at (qs ! i)) (random_toPrecision2 env (n + i))"
  using assms
proof (induction qs arbitrary: n u i)
  case Nil
  then show ?case by simp
next
  case (Cons q qs)
  from Cons.prems(1) have tq: "target q = searchParams_append ''no-cache-please''
                   (cache_token (sent_at q) (random_toPrecision2 env n)) u"
    and rest: "retry_chain env (Suc n) (target q) qs"
    unfolding retry_chain.simps by blast+
  have q: "searchParams (target q) = searchParams u @ [(''no-cache-please'', generated_value q)]"
    "generated_value q = cache_token (sent_at q) (random_toPrecision2 env n)"
    by (simp_all add: generated_value_def searchParams_append_def tq [unfolded searchParams_append_def])
  show ?case
  proof (cases i)
    case 0
    with q show ?thesis by simp
  next
    case (Suc j)
    with Cons.prems have "j < length qs" by simp
    from Cons.IH [OF rest this] q Suc show ?thesis by simp
  qed
qed

lemma nocache_values_nth:
  assumes "retry_chain env n u qs" "i < length qs"
  shows "nocache_values (target (qs ! i)) = nocache_values u @ map generated_value (take (Suc i) qs)"
proof -
  have "map snd (filter (\<lambda>p. fst p = ''no-cache-please'')
          (map (\<lambda>q. (''no-cache-please'', generated_value q)) xs)) = map generated_value xs" for xs
    by (induction xs) simp_all
  then show ?thesis
    using retry_chain_nth [OF assms] by (simp add: nocache_values_def)
qed

text \<open>Equations for running the model on concrete input.\<close>

lemmas run_simps = get.simps scripted_def answer_def session_def constructor_def nullish_def
  rateLimit_def prune_def MAX_SAFE_INTEGER_def Let_def new_URL_def searchParams_append_def
  cache_token_def Number_toString_def digits.simps digit_char_def BASE_URL_def towns_url_def
  requests_made_def attempt_outcome_def outcomes_def

section \<open>Claims about the request executor\<close>

text \<open>
  Claim C5: with a quota of at least 1 (so that the limiter lets the call through) at least one
  request goes out. If the retry budget \<open>r\<close> is not negative and every attempt made came back
  with status 504, exactly \<open>r + 1\<close> attempts were made and the result is the response of the
  last one, a 504 returned as a normal result. If the first attempt came back with a status
  other than 504, exactly one attempt was made and its response is the result.
\<close>

theorem get_retry_bound:
  assumes "1 \<le> maxRequestsPerWindow (client s)"
  shows "requests_made env url r s \<noteq> []
     \<and> (0 \<le> r \<and> list_all is504 (outcomes env url r s)
          \<longrightarrow> length (requests_made env url r s) = nat r + 1
            \<and> fst (get env url r s) = attempt_outcome env url r s (nat r)
            \<and> is504 (fst (get env url r s)))
     \<and> ((\<exists>response. attempt_outcome env url r s 0 = Inr response \<and> status response \<noteq> 504)
          \<longrightarrow> length (requests_made env url r s) = 1
            \<and> fst (get env url r s) = attempt_outcome env url r s 0)"
proof -
  from get_trace [OF assms, of env url r] obtain qs where
    qs: "qs \<noteq> []" "fetchLog (snd (get env url r s)) = fetchLog s @ qs"
      "fst (get env url r s) = fetch env (length (fetchLog s) + (length qs - 1)) (last qs)"
      "is504 (fst (get env url r s)) \<longrightarrow> length qs = nat r + 1"
    by blast
  have rm: "requests_made env url r s = qs" using qs(2) by (rule requests_made_eq)
  have last: "fst (get env url r s) = attempt_outcome env url r s (length qs - 1)"
    using qs(1,3) by (simp add: attempt_outcome_def rm last_conv_nth)
  have a: "length qs = nat r + 1 \<and> fst (get env url r s) = attempt_outcome env url r s (nat r)
            \<and> is504 (fst (get env url r s))"
    if "list_all is504 (outcomes env url r s)"
  proof -
    have "length qs - 1 < length qs" using qs(1) by simp
    with that have "is504 (attempt_outcome env url r s (length qs - 1))"
      by (simp add: outcomes_def rm list_all_iff)
    with last qs(4) show ?thesis by simp
  qed
  from get_final [of env url r s] qs(2) have fin:
    "i < length qs \<and> \<not> is504 (fetch env (length (fetchLog s) + i) (qs ! i))
       \<longrightarrow> Suc i = length qs \<and> fst (get env url r s) = fetch env (length (fetchLog s) + i) (qs ! i)" for i
    by auto
  have b: "length qs = 1 \<and> fst (get env url r s) = attempt_outcome env url r s 0"
    if "attempt_outcome env url r s 0 = Inr response" "status response \<noteq> 504" for response
  proof -
    from that have "\<not> is504 (fetch env (length (fetchLog s) + 0) (qs ! 0))"
      by (simp add: attempt_outcome_def rm is504_def)
    with fin [of 0] qs(1) show ?thesis by (simp add: attempt_outcome_def rm)
  qed
  show ?thesis using a b qs(1) by (auto simp: rm)
qed

theorem get_retry_bound_witness:
  "1 \<le> maxRequestsPerWindow (client (session None 0))
   \<and> (0::int) \<le> 3
   \<and> list_all is504 (outcomes (scripted [answer 504, answer 504, answer 504, answer 504] 20)
        towns_url 3 (session None 0))
   \<and> length (requests_made (scripted [answer 504, answer 504, answer 504, answer 504] 20)
        towns_url 3 (session None 0)) = 4
   \<and> fst (get (scripted [answer 504, answer 504, answer 504, answer 504] 20)
        towns_url 3 (session None 0)) = answer 504
   \<and> (\<exists>response. attempt_outcome (scripted [answer 404] 20) towns_url 3 (session None 0) 0
          = Inr response \<and> status response \<noteq> 504)
   \<and> length (requests_made (scripted [answer 404] 20) towns_url 3 (session None 0)) = 1
   \<and> fst (get (scripted [answer 404] 20) towns_url 3 (session None 0)) = answer 404"
proof -
  have q: "1 \<le> maxRequestsPerWindow (client (session None 0))"
    by (simp add: session_def constructor_def nullish_def MAX_SAFE_INTEGER_def)
  have h1: "list_all is504 (outcomes (scripted [answer 504, answer 504, answer 504, answer 504] 20)
        towns_url 3 (session None 0))"
    by (simp add: run_simps is504_def)
  have o1: "attempt_outcome (scripted [answer 504, answer 504, answer 504, answer 504] 20)
        towns_url 3 (session None 0) (nat 3) = answer 504"
    by (simp add: run_simps)
  have h2: "\<exists>response. attempt_outcome (scripted [answer 404] 20) towns_url 3 (session None 0) 0
          = Inr response \<and> status response \<noteq> 504"
    by (simp add: run_simps)
  have o2: "attempt_outcome (scripted [answer 404] 20) towns_url 3 (session None 0) 0 = answer 404"
    by (simp add: run_simps)
  from get_retry_bound [OF q, of "scripted [answer 504, answer 504, answer 504, answer 504] 20" towns_url 3]
    h1 o1
  have "length (requests_made (scripted [answer 504, answer 504, answer 504, answer 504] 20)
        towns_url 3 (session None 0)) = 4
     \<and> fst (get (scripted [answer 504, answer 504, answer 504, answer 504] 20)
        towns_url 3 (session None 0)) = answer 504"
    by simp
  moreover from get_retry_bound [OF q, of "scripted [answer 404] 20" towns_url 3] h2 o2
  have "length (requests_made (scripted [answer 404] 20) towns_url 3 (session None 0)) = 1
     \<and> fst (get (scripted [answer 404] 20) towns_url 3 (session None 0)) = answer 404"
    by simp
  ultimately show ?thesis using q h1 h2 by simp
qed

text \<open>
  Claim C6: if an attempt of a call is rejected with \<open>e\<close>, the call ends with that same \<open>e\<close> and
  the attempt is the last one; if an attempt comes back with a status other than 504, the call
  returns that response as a normal result and the attempt is the last one.
\<close>

theorem get_propagates_outcome:
  "(\<forall>i e. i < length (requests_made env url r s) \<and> attempt_outcome env url r s i = Inl e
       \<longrightarrow> fst (get env url r s) = Inl e \<and> Suc i = length (requests_made env url r s))
   \<and> (\<forall>i response. i < length (requests_made env url r s)
         \<and> attempt_outcome env url r s i = Inr response \<and> status response \<noteq> 504
       \<longrightarrow> fst (get env url r s) = Inr response \<and> Suc i = length (requests_made env url r s))"
proof -
  from get_final [of env url r s] obtain qs where
    qs: "fetchLog (snd (get env url r s)) = fetchLog s @ qs"
    and fin: "\<And>i. i < length qs \<and> \<not> is504 (fetch env (length (fetchLog s) + i) (qs ! i))
       \<Longrightarrow> Suc i = length qs \<and> fst (get env url r s) = fetch env (length (fetchLog s) + i) (qs ! i)"
    by blast
  have rm: "requests_made env url r s = qs" using qs by (rule requests_made_eq)
  have fin': "fst (get env url r s) = x \<and> Suc i = length qs"
    if "i < length qs" "attempt_outcome env url r s i = x" "\<not> is504 x" for i x
    using fin [of i] that by (simp add: attempt_outcome_def rm)
  have "fst (get env url r s) = Inl e \<and> Suc i = length qs"
    if "i < length qs" "attempt_outcome env url r s i = Inl e" for i e
    using fin' [OF that] by (simp add: is504_def)
  moreover have "fst (get env url r s) = Inr response \<and> Suc i = length qs"
    if "i < length qs" "attempt_outcome env url r s i = Inr response" "status response \<noteq> 504"
    for i response
    using fin' [OF that(1,2)] that(3) by (simp add: is504_def)
  ultimately show ?thesis unfolding rm by blast
qed

theorem get_propagates_outcome_witness:
  "1 < length (requests_made (scripted [answer 504, Inl (NetworkError ''ECONNRESET'')] 20)
          towns_url 3 (session None 0))
   \<and> attempt_outcome (scripted [answer 504, Inl (NetworkError ''ECONNRESET'')] 20)
          towns_url 3 (session None 0) 1 = Inl (NetworkError ''ECONNRESET'')
   \<and> fst (get (scripted [answer 504, Inl (NetworkError ''ECONNRESET'')] 20)
          towns_url 3 (session None 0)) = Inl (NetworkError ''ECONNRESET'')
   \<and> Suc 1 = length (requests_made (scripted [answer 504, Inl (NetworkError ''ECONNRESET'')] 20)
          towns_url 3 (session None 0))
   \<and> 1 < length (requests_made (scripted [answer 504, answer 404] 20) towns_url 3 (session None 0))
   \<and> attempt_outcome (scripted [answer 504, answer 404] 20) towns_url 3 (session None 0) 1
        = Inr \<lparr> status = 404, body = [] \<rparr>
   \<and> status \<lparr> status = 404, body = [] \<rparr> \<noteq> 504
   \<and> fst (get (scripted [answer 504, answer 404] 20) towns_url 3 (session None 0))
        = Inr \<lparr> status = 404, body = [] \<rparr>
   \<and> Suc 1 = length (requests_made (scripted [answer 504, answer 404] 20) towns_url 3 (session None 0))"
proof -
  have a: "1 < length (requests_made (scripted [answer 504, Inl (NetworkError ''ECONNRESET'')] 20)
          towns_url 3 (session None 0))
     \<and> attempt_outcome (scripted [answer 504, Inl (NetworkError ''ECONNRESET'')] 20)
          towns_url 3 (session None 0) 1 = Inl (NetworkError ''ECONNRESET'')"
    by (simp add: run_simps)
  have b: "1 < length (requests_made (scripted [answer 504, answer 404] 20) towns_url 3 (session None 0))
     \<and> attempt_outcome (scripted [answer 504, answer 404] 20) towns_url 3 (session None 0) 1
        = Inr \<lparr> status = 404, body = [] \<rparr>
     \<and> status \<lparr> status = 404, body = [] \<rparr> \<noteq> 504"
    by (simp add: run_simps)
  from a get_propagates_outcome [of "scripted [answer 504, Inl (NetworkError ''ECONNRESET'')] 20"
      towns_url 3 "session None 0"]
  have "fst (get (scripted [answer 504, Inl (NetworkError ''ECONNRESET'')] 20)
          towns_url 3 (session None 0)) = Inl (NetworkError ''ECONNRESET'')
   \<and> Suc 1 = length (requests_made (scripted [answer 504, Inl (NetworkError ''ECONNRESET'')] 20)
          towns_url 3 (session None 0))"
    by blast
  moreover from b get_propagates_outcome [of "scripted [answer 504, answer 404] 20"
      towns_url 3 "session None 0"]
  have "fst (get (scripted [answer 504, answer 404] 20) towns_url 3 (session None 0))
        = Inr \<lparr> status = 404, body = [] \<rparr>
   \<and> Suc 1 = length (requests_made (scripted [answer 504, answer 404] 20) towns_url 3 (session None 0))"
    by blast
  ultimately show ?thesis using a b by blast
qed


text \<open>
  Claim C8 says that the cache-busting values of the original attempt and of its retry always
  differ. They are equal when the retry reads the same millisecond and draws the same random
  string: here the 504 comes back within the millisecond of the request, and both attempts
  carry \<open>0~0.50\<close> as their value.
\<close>

theorem retry_values_equal_in_same_millisecond:
  "map generated_value (requests_made (scripted [answer 504] 0) towns_url 3 (session None 0))
     = [''0~0.50'', ''0~0.50'']
   \<and> generated_value (requests_made (scripted [answer 504] 0) towns_url 3 (session None 0) ! 0)
     = generated_value (requests_made (scripted [answer 504] 0) towns_url 3 (session None 0) ! 1)"
  by (simp add: run_simps generated_value_def)

text \<open>
  Claim C8 as amended: any two attempts of one call have different URLs, since a later attempt's
  URL carries more parameters; the values generated for two attempts are equal exactly when
  both the clock readings at the two calls of \<^verbatim>\<open>fetch\<close> and the two random strings are equal, so
  they differ as soon as the clock reading or the random string differs.
\<close>

theorem retry_values_differ_iff:
  assumes "i < j" and "j < length (requests_made env url r s)"
  shows "target (requests_made env url r s ! i) \<noteq> target (requests_made env url r s ! j)
     \<and> ((generated_value (requests_made env url r s ! i)
            = generated_value (requests_made env url r s ! j))
          = (sent_at (requests_made env url r s ! i) = sent_at (requests_made env url r s ! j)
             \<and> random_toPrecision2 env (length (fetchLog s) + i)
                 = random_toPrecision2 env (length (fetchLog s) + j)))"
proof -
  from get_chain [of env url r s] obtain qs where
    qs: "fetchLog (snd (get env url r s)) = fetchLog s @ qs"
    and chain: "retry_chain env (length (fetchLog s)) url qs"
    by blast
  have rm: "requests_made env url r s = qs" using qs by (rule requests_made_eq)
  from assms have j: "j < length qs" and i: "i < length qs" by (simp_all add: rm)
  note ni = retry_chain_nth [OF chain i] and nj = retry_chain_nth [OF chain j]
  have "length (searchParams (target (qs ! i))) = length (searchParams url) + Suc i"
    "length (searchParams (target (qs ! j))) = length (searchParams url) + Suc j"
    using ni nj i j by simp_all
  with assms(1) have "searchParams (target (qs ! i)) \<noteq> searchParams (target (qs ! j))"
    by (metis add_left_cancel less_not_refl nat.inject)
  then have "target (qs ! i) \<noteq> target (qs ! j)" by auto
  moreover have "(generated_value (qs ! i) = generated_value (qs ! j))
          = (sent_at (qs ! i) = sent_at (qs ! j)
             \<and> random_toPrecision2 env (length (fetchLog s) + i)
                 = random_toPrecision2 env (length (fetchLog s) + j))"
    using ni nj by (simp add: cache_token_eq)
  ultimately show ?thesis by (simp add: rm)
qed

theorem retry_values_differ_iff_witness:
  "(0::nat) < 1
   \<and> 1 < length (requests_made (scripted [answer 504] 20) towns_url 3 (session None 0))
   \<and> target (requests_made (scripted [answer 504] 20) towns_url 3 (session None 0) ! 0)
       \<noteq> target (requests_made (scripted [answer 504] 20) towns_url 3 (session None 0) ! 1)
   \<and> map generated_value (requests_made (scripted [answer 504] 20) towns_url 3 (session None 0))
       = [''0~0.50'', ''20~0.50'']
   \<and> map sent_at (requests_made (scripted [answer 504] 20) towns_url 3 (session None 0)) = [0, 20]"
proof -
  have a: "(0::nat) < 1" by simp
  have b: "1 < length (requests_made (scripted [answer 504] 20) towns_url 3 (session None 0))"
    by (simp add: run_simps)
  have c: "map generated_value (requests_made (scripted [answer 504] 20) towns_url 3 (session None 0))
       = [''0~0.50'', ''20~0.50'']"
     "map sent_at (requests_made (scripted [answer 504] 20) towns_url 3 (session None 0)) = [0, 20]"
    by (simp_all add: run_simps generated_value_def)
  from retry_values_differ_iff [OF a b] a b c show ?thesis by blast
qed

text \<open>
  Claim C10: when the URL handed to \<^verbatim>\<open>get\<close> carries no cache-busting parameter (as every URL the
  endpoints build), the URL of attempt number \<open>k + 1\<close> carries exactly \<open>k + 1\<close> of them: the
  values generated for the attempts up to that one, in the order of the attempts.
\<close>

theorem retry_url_accumulates_values:
  assumes "nocache_values url = []" and "k < length (requests_made env url r s)"
  shows "nocache_values (target (requests_made env url r s ! k))
           = map generated_value (take (Suc k) (requests_made env url r s))
     \<and> length (nocache_values (target (requests_made env url r s ! k))) = Suc k"
proof -
  from get_chain [of env url r s] obtain qs where
    qs: "fetchLog (snd (get env url r s)) = fetchLog s @ qs"
    and chain: "retry_chain env (length (fetchLog s)) url qs"
    by blast
  have rm: "requests_made env url r s = qs" using qs by (rule requests_made_eq)
  from assms(2) have k: "k < length qs" by (simp add: rm)
  have "nocache_values (target (qs ! k)) = map generated_value (take (Suc k) qs)"
    using nocache_values_nth [OF chain k] assms(1) by simp
  moreover from k have "length (map generated_value (take (Suc k) qs)) = Suc k" by simp
  ultimately show ?thesis by (simp add: rm)
qed

theorem retry_url_accumulates_values_witness:
  "nocache_values towns_url = []
   \<and> 2 < length (requests_made (scripted [answer 504, answer 504] 20) towns_url 3 (session None 0))
   \<and> nocache_values (target (requests_made (scripted [answer 504, answer 504] 20)
         towns_url 3 (session None 0) ! 2)) = [''0~0.50'', ''20~0.50'', ''40~0.50'']
   \<and> map generated_value (requests_made (scripted [answer 504, answer 504] 20)
         towns_url 3 (session None 0)) = [''0~0.50'', ''20~0.50'', ''40~0.50'']"
proof -
  have a: "nocache_values towns_url = []"
    by (simp add: nocache_values_def towns_url_def new_URL_def)
  have b: "2 < length (requests_made (scripted [answer 504, answer 504] 20) towns_url 3 (session None 0))"
    by (simp add: run_simps)
  have c:  "map generated_value (requests_made (scripted [answer 504, answer 504] 20)
         towns_url 3 (session None 0)) = [''0~0.50'', ''20~0.50'', ''40~0.50'']"
    by (simp add: run_simps generated_value_def)
  from retry_url_accumulates_values [OF a b] have 
    "nocache_values (target (requests_made (scripted [answer 504, answer 504] 20)
         towns_url 3 (session None 0) ! 2))
      = map generated_value (take (Suc 2) (requests_made (scripted [answer 504, answer 504] 20)
         towns_url 3 (session None 0)))" by blast
  also have "\<dots> = [''0~0.50'', ''20~0.50'', ''40~0.50'']"
    by (simp add: take_map [symmetric] c)
  finally show ?thesis using a b c by blast
qed

section \<open>Claims about the endpoints\<close>

lemma nearbyCoord_url_params:
  "searchParams (nearbyCoord_url c (x, z) radius)
     = [(''x'', Number_toString (Math_round x)), (''z'', Number_toString (Math_round z)),
        (''radius'', Number_toString (Math_round radius))]"
  by (simp add: nearbyCoord_url_def searchParams_append_def new_URL_def)

text \<open>
  Claim C9, for finite arguments whose roundings are below \<open>2^53\<close> in magnitude and a quota of
  at least 1: \<^verbatim>\<open>nearbyCoord\<close> makes a request, and every request it makes has \<open>x\<close>, \<open>z\<close> and
  \<open>radius\<close> as its first three parameters, each the decimal rendering of the rounded argument;
  rounding yields the integer \<open>k\<close> with \<open>k - 1/2 \<le> v < k + 1/2\<close>, and no integer is closer to \<open>v\<close>;
  for the coordinates \<open>12.6\<close>, \<open>-3.4\<close> and the radius \<open>5.7\<close> a request is made and the parameters
  are \<open>x=13\<close>, \<open>z=-3\<close>, \<open>radius=6\<close>.
\<close>

theorem nearbyCoord_rounds:
  assumes "1 \<le> maxRequestsPerWindow (client s)"
    and "\<bar>Math_round x\<bar> < 2 ^ 53"
    and "\<bar>Math_round z\<bar> < 2 ^ 53"
    and "\<bar>Math_round radius\<bar> < 2 ^ 53"
  shows "nearbyCoord_requests env (x, z) radius s \<noteq> []
   \<and> (\<forall>q \<in> set (nearbyCoord_requests env (x, z) radius s).
       take 3 (searchParams (target q))
         = [(''x'', Number_toString (Math_round x)), (''z'', Number_toString (Math_round z)),
            (''radius'', Number_toString (Math_round radius))])
   \<and> (Math_round v = k) = (of_int k - 1 / 2 \<le> v \<and> v < of_int k + 1 / 2)
   \<and> \<bar>of_int (Math_round v) - v\<bar> \<le> \<bar>of_int k' - v\<bar>
   \<and> nearbyCoord_requests env (63 / 5, - 17 / 5) (57 / 10) s \<noteq> []
   \<and> (\<forall>q \<in> set (nearbyCoord_requests env (63 / 5, - 17 / 5) (57 / 10) s).
       take 3 (searchParams (target q)) = [(''x'', ''13''), (''z'', ''-3''), (''radius'', ''6'')])"
proof -
  have made: "nearbyCoord_requests env (x, z) radius s \<noteq> []" for x z radius
  proof -
    let ?u = "nearbyCoord_url (client s) (x, z) radius"
    from get_trace [OF assms(1), of env ?u 3] obtain qs where
      qs: "qs \<noteq> []" "fetchLog (snd (get env ?u 3 s)) = fetchLog s @ qs"
      by blast
    have "nearbyCoord_requests env (x, z) radius s = qs"
      by (simp add: nearbyCoord_requests_def nearbyCoord_def qs(2))
    with qs(1) show ?thesis by simp
  qed
  have gen: "take 3 (searchParams (target q))
         = [(''x'', Number_toString (Math_round x)), (''z'', Number_toString (Math_round z)),
            (''radius'', Number_toString (Math_round radius))]"
    if "q \<in> set (nearbyCoord_requests env (x, z) radius s)" for q x z radius
  proof -
    let ?u = "nearbyCoord_url (client s) (x, z) radius"
    from get_chain [of env ?u 3 s] obtain qs where
      qs: "fetchLog (snd (get env ?u 3 s)) = fetchLog s @ qs"
      and chain: "retry_chain env (length (fetchLog s)) ?u qs"
      by blast
    have "nearbyCoord_requests env (x, z) radius s = qs"
      by (simp add: nearbyCoord_requests_def nearbyCoord_def qs)
    with that obtain i where i: "i < length qs" "q = qs ! i" by (auto simp: in_set_conv_nth)
    from retry_chain_nth [OF chain i(1)] show ?thesis
      by (simp add: i(2) nearbyCoord_url_params)
  qed
  have r: "Math_round (63 / 5) = 13" "Math_round (- 17 / 5) = - 3" "Math_round (57 / 10) = 6"
    by (simp_all add: Math_round_iff)
  have s: "Number_toString 13 = ''13''" "Number_toString (- 3) = ''-3''" "Number_toString 6 = ''6''"
    by (simp_all add: Number_toString_def digits.simps digit_char_def)
  show ?thesis
    using gen [of _ "63 / 5" "- 17 / 5" "57 / 10"] gen [of _ x z radius]
      made [of x z radius] made [of "63 / 5" "- 17 / 5" "57 / 10"]
      Math_round_iff [of v k] Math_round_nearest [of v k']
    unfolding r s by blast
qed

theorem nearbyCoord_rounds_witness:
  "1 \<le> maxRequestsPerWindow (client (session None 0))
   \<and> \<bar>Math_round (63 / 5)\<bar> < 2 ^ 53
   \<and> \<bar>Math_round (- 17 / 5)\<bar> < 2 ^ 53
   \<and> \<bar>Math_round (57 / 10)\<bar> < 2 ^ 53
   \<and> nearbyCoord_requests (scripted [] 20) (63 / 5, - 17 / 5) (57 / 10) (session None 0) \<noteq> []
   \<and> hd (nearbyCoord_requests (scripted [] 20) (63 / 5, - 17 / 5) (57 / 10) (session None 0))
     \<in> set (nearbyCoord_requests (scripted [] 20) (63 / 5, - 17 / 5) (57 / 10) (session None 0))
   \<and> take 3 (searchParams (target (hd (nearbyCoord_requests (scripted [] 20)
        (63 / 5, - 17 / 5) (57 / 10) (session None 0)))))
       = [(''x'', ''13''), (''z'', ''-3''), (''radius'', ''6'')]"
proof -
  have q: "1 \<le> maxRequestsPerWindow (client (session None 0))"
    by (simp add: session_def constructor_def nullish_def MAX_SAFE_INTEGER_def)
  have r: "Math_round (63 / 5) = 13" "Math_round (- 17 / 5) = - 3" "Math_round (57 / 10) = 6"
    by (simp_all add: Math_round_iff)
  have b: "\<bar>Math_round (63 / 5)\<bar> < 2 ^ 53" "\<bar>Math_round (- 17 / 5)\<bar> < 2 ^ 53"
    "\<bar>Math_round (57 / 10)\<bar> < 2 ^ 53"
    unfolding r by simp_all
  note t = nearbyCoord_rounds [OF q b, of "scripted [] 20" 0 0 0]
  from t have ne:
    "nearbyCoord_requests (scripted [] 20) (63 / 5, - 17 / 5) (57 / 10) (session None 0) \<noteq> []"
    by blast
  then have "hd (nearbyCoord_requests (scripted [] 20) (63 / 5, - 17 / 5) (57 / 10) (session None 0))
     \<in> set (nearbyCoord_requests (scripted [] 20) (63 / 5, - 17 / 5) (57 / 10) (session None 0))"
    by (rule hd_in_set)
  with t q b ne show ?thesis by blast
qed

text \<open>
  Claim C3 says that the constructor honours a \<open>server\<close> option. It does not read it: built with
  \<open>server = nova\<close>, the client still addresses \<open>aurora\<close>, in the URL that \<^verbatim>\<open>discord\<close> builds and in
  the request it makes.
\<close>

theorem constructor_ignores_server:
  "serverStr (constructor (Some nova)) = ''aurora''
   \<and> discord_url (constructor (Some nova)) [''a'', ''b'']
       = \<lparr> href = ''https://api.earthmc.net/v3/aurora/discord'',
           searchParams = [(''query'', ''a,b'')] \<rparr>
   \<and> map (href \<circ> target)
         (fetchLog (snd (discord (scripted [] 20) [''a'', ''b''] (session (Some nova) 0))))
       = [''https://api.earthmc.net/v3/aurora/discord'']"
  by (simp add: discord_def discord_url_def nova_def run_simps)

end
